theory Spec2Isabelle
  imports Complex_Main
begin

section \<open>Text and regular expressions\<close>

text \<open>
  A Python \<open>str\<close> is a sequence of Unicode code points. The labels and the warnings of
  \<open>check_sensitive_info.py\<close> contain CJK characters, so a text is a list of code points
  (natural numbers), not a list of 8-bit characters. \<open>ustr\<close> reads an ASCII literal.
\<close>

type_synonym str = "nat list"

definition ustr :: "string \<Rightarrow> str" where
  "ustr s = map of_char s"

text \<open>
  The members of a bracketed set of a pattern: a single character, a range \<open>a-z\<close>, or
  the class \<open>\s\<close>. For a \<open>str\<close> pattern, \<open>\s\<close> is Unicode white space: the code points
  listed in \<open>is_space\<close>.
\<close>

datatype citem = Ch nat | Rng nat nat | Space

definition is_space :: "nat \<Rightarrow> bool" where
  "is_space c \<longleftrightarrow>
     (9 \<le> c \<and> c \<le> 13) \<or> (28 \<le> c \<and> c \<le> 32) \<or> c = 133 \<or> c = 160 \<or> c = 5760
     \<or> (8192 \<le> c \<and> c \<le> 8202) \<or> c = 8232 \<or> c = 8233 \<or> c = 8239 \<or> c = 8287
     \<or> c = 12288"

fun in_item :: "citem \<Rightarrow> nat \<Rightarrow> bool" where
  "in_item (Ch a) c \<longleftrightarrow> c = a"
| "in_item (Rng a b) c \<longleftrightarrow> a \<le> c \<and> c \<le> b"
| "in_item Space c \<longleftrightarrow> is_space c"

text \<open>
  Regular expressions. \<open>Atom neg items\<close> is one character of the set \<open>[items]\<close>, or of
  its complement \<open>[^items]\<close> when \<open>neg\<close> holds. \<open>AtLeast n r\<close> is \<open>r{n,}\<close> and
  \<open>Exactly n r\<close> is \<open>r{n}\<close>.
\<close>

datatype rexp =
    Zero
  | One
  | Atom bool "citem list"
  | Plus rexp rexp
  | Times rexp rexp
  | Star rexp
  | AtLeast nat rexp
  | Exactly nat rexp

definition accepts :: "bool \<Rightarrow> citem list \<Rightarrow> nat \<Rightarrow> bool" where
  "accepts neg items c \<longleftrightarrow> (list_ex (\<lambda>i. in_item i c) items \<noteq> neg)"

subsection \<open>The language of a regular expression\<close>

definition conc :: "str set \<Rightarrow> str set \<Rightarrow> str set" where
  "conc A B = {u @ v | u v. u \<in> A \<and> v \<in> B}"

inductive_set star :: "str set \<Rightarrow> str set" for A :: "str set" where
  star_empty: "[] \<in> star A"
| star_more: "u \<in> A \<Longrightarrow> v \<in> star A \<Longrightarrow> u @ v \<in> star A"

fun pow :: "str set \<Rightarrow> nat \<Rightarrow> str set" where
  "pow A 0 = {[]}"
| "pow A (Suc n) = conc A (pow A n)"

fun lang :: "rexp \<Rightarrow> str set" where
  "lang Zero = {}"
| "lang One = {[]}"
| "lang (Atom neg items) = {[c] | c. accepts neg items c}"
| "lang (Plus r s) = lang r \<union> lang s"
| "lang (Times r s) = conc (lang r) (lang s)"
| "lang (Star r) = star (lang r)"
| "lang (AtLeast n r) = conc (pow (lang r) n) (star (lang r))"
| "lang (Exactly n r) = pow (lang r) n"

subsection \<open>Matching by derivatives\<close>

fun nullable :: "rexp \<Rightarrow> bool" where
  "nullable Zero = False"
| "nullable One = True"
| "nullable (Atom neg items) = False"
| "nullable (Plus r s) = (nullable r \<or> nullable s)"
| "nullable (Times r s) = (nullable r \<and> nullable s)"
| "nullable (Star r) = True"
| "nullable (AtLeast n r) = (n = 0 \<or> nullable r)"
| "nullable (Exactly n r) = (n = 0 \<or> nullable r)"

fun plus :: "rexp \<Rightarrow> rexp \<Rightarrow> rexp" where
  "plus Zero s = s"
| "plus r Zero = r"
| "plus r s = Plus r s"

fun times :: "rexp \<Rightarrow> rexp \<Rightarrow> rexp" where
  "times Zero s = Zero"
| "times One s = s"
| "times r s = Times r s"

text \<open>
  The derivative of a bounded repetition counts the bound down, so its recursion is on
  the bound as well as on the expression.
\<close>

fun weight :: "rexp \<Rightarrow> nat" where
  "weight (Plus r s) = Suc (weight r + weight s)"
| "weight (Times r s) = Suc (weight r + weight s)"
| "weight (Star r) = Suc (weight r)"
| "weight (AtLeast n r) = Suc (n + weight r)"
| "weight (Exactly n r) = Suc (n + weight r)"
| "weight r = 0"

function (sequential) deriv :: "nat \<Rightarrow> rexp \<Rightarrow> rexp" where
  "deriv c Zero = Zero"
| "deriv c One = Zero"
| "deriv c (Atom neg items) = (if accepts neg items c then One else Zero)"
| "deriv c (Plus r s) = plus (deriv c r) (deriv c s)"
| "deriv c (Times r s) =
     (if nullable r then plus (times (deriv c r) s) (deriv c s) else times (deriv c r) s)"
| "deriv c (Star r) = times (deriv c r) (Star r)"
| "deriv c (AtLeast 0 r) = times (deriv c r) (Star r)"
| "deriv c (AtLeast (Suc n) r) =
     (if nullable r then plus (times (deriv c r) (AtLeast n r)) (deriv c (AtLeast n r))
      else times (deriv c r) (AtLeast n r))"
| "deriv c (Exactly 0 r) = Zero"
| "deriv c (Exactly (Suc n) r) =
     (if nullable r then plus (times (deriv c r) (Exactly n r)) (deriv c (Exactly n r))
      else times (deriv c r) (Exactly n r))"
  by pat_completeness auto
termination
  by (relation "measure (\<lambda>(c, r). weight r)") auto

fun matches :: "rexp \<Rightarrow> str \<Rightarrow> bool" where
  "matches r [] = nullable r"
| "matches r (c # cs) = matches (deriv c r) cs"

subsection \<open>Pattern notation\<close>

text \<open>
  \<open>re.DOTALL\<close> changes what \<open>.\<close> stands for, so a pattern is a function of the flag that
  \<open>re.search\<close> is called with.
\<close>

datatype flag = NOFLAG | DOTALL

type_synonym pattern = "flag \<Rightarrow> rexp"

definition dot :: "flag \<Rightarrow> rexp" where
  "dot f = (case f of NOFLAG \<Rightarrow> Atom True [Ch 10] | DOTALL \<Rightarrow> Atom True [])"

definition seqs :: "rexp list \<Rightarrow> rexp" where
  "seqs rs = foldr Times rs One"

definition opt :: "rexp \<Rightarrow> rexp" where
  "opt r = Plus One r"

definition one_of :: "string \<Rightarrow> rexp" where
  "one_of s = Atom False (map (\<lambda>c. Ch (of_char c)) s)"

definition sets :: "string list \<Rightarrow> rexp" where
  "sets ss = seqs (map one_of ss)"

definition lit :: "str \<Rightarrow> rexp" where
  "lit w = seqs (map (\<lambda>c. Atom False [Ch c]) w)"

definition rng :: "char \<Rightarrow> char \<Rightarrow> citem" where
  "rng a b = Rng (of_char a) (of_char b)"

definition chr :: "char \<Rightarrow> citem" where
  "chr a = Ch (of_char a)"

text \<open>
  \<open>re.search(pattern, text, flags)\<close> finds a match anywhere in the text: it returns a
  match object (true here) exactly when some substring of the text is in the language
  of the pattern. None of the patterns of this program uses a back-reference, a
  look-around or an anchor, so greedy and lazy choices change which match is found,
  never whether there is one.
\<close>

definition any_text :: rexp where
  "any_text = Star (Atom True [])"

definition re_search :: "pattern \<Rightarrow> str \<Rightarrow> flag \<Rightarrow> bool" where
  "re_search p t f = matches (Times any_text (Times (p f) any_text)) t"

section \<open>The detectors\<close>

text \<open>Fragments that the patterns of the source share.\<close>

definition ws :: rexp where \<comment> \<open>\<open>\s\<close>\<close>
  "ws = Atom False [Space]"

definition assign :: rexp where \<comment> \<open>\<open>[:=]\<close>\<close>
  "assign = one_of '':=''"

definition quote :: rexp where \<comment> \<open>\<open>["\']\<close>: code points 34 and 39\<close>
  "quote = Atom False [Ch 34, Ch 39]"

definition key_char :: rexp where \<comment> \<open>\<open>[A-Za-z0-9_\-]\<close>\<close>
  "key_char = Atom False [rng CHR ''A'' CHR ''Z'', rng CHR ''a'' CHR ''z'',
     rng CHR ''0'' CHR ''9'', chr CHR ''_'', chr CHR ''-'']"

definition value_char :: rexp where \<comment> \<open>\<open>[^\s"\']\<close>\<close>
  "value_char = Atom True [Space, Ch 34, Ch 39]"

definition assigned :: "nat \<Rightarrow> rexp \<Rightarrow> rexp list" where
  \<comment> \<open>\<open>\s*[:=]\s*["\']?(C{n,})["\']?\<close>\<close>
  "assigned n c = [Star ws, assign, Star ws, opt quote, AtLeast n c, opt quote]"

definition api_key_patterns :: "pattern list" where
  "api_key_patterns =
    [\<lambda>f. seqs (sets [''Aa'', ''Pp'', ''Ii''] # opt (one_of ''_-'')
           # sets [''Kk'', ''Ee'', ''Yy''] # assigned 20 key_char),
     \<lambda>f. seqs [sets [''Aa'', ''Pp'', ''Ii''], opt (one_of ''_-''),
           sets [''Kk'', ''Ee'', ''Yy''], AtLeast 1 ws, AtLeast 20 key_char],
     \<lambda>f. seqs [lit (ustr ''sk-''),
           AtLeast 32 (Atom False [rng CHR ''A'' CHR ''Z'', rng CHR ''a'' CHR ''z'',
             rng CHR ''0'' CHR ''9''])],
     \<lambda>f. seqs [lit (ustr ''AIza''),
           Exactly 35 (Atom False [rng CHR ''0'' CHR ''9'', rng CHR ''A'' CHR ''Z'',
             rng CHR ''a'' CHR ''z'', chr CHR ''_'', chr CHR ''-''])],
     \<lambda>f. seqs [lit (ustr ''AKIA''),
           Exactly 16 (Atom False [rng CHR ''0'' CHR ''9'', rng CHR ''A'' CHR ''Z''])],
     \<lambda>f. Exactly 40 (Atom False [rng CHR ''0'' CHR ''9'', rng CHR ''a'' CHR ''z'',
             rng CHR ''A'' CHR ''Z'', chr CHR ''/'', chr CHR ''+''])]"

definition detect_api_key :: "str \<Rightarrow> bool" where
  "detect_api_key t = list_ex (\<lambda>p. re_search p t NOFLAG) api_key_patterns"

definition password_patterns :: "pattern list" where
  "password_patterns =
    [\<lambda>f. seqs (sets [''Pp'', ''Aa'', ''Ss'', ''Ss'', ''Ww'', ''Oo'', ''Rr'', ''Dd'']
           # assigned 6 value_char),
     \<lambda>f. seqs (sets [''Pp'', ''Ww'', ''Dd''] # assigned 6 value_char),
     \<lambda>f. seqs (one_of ''Pp'' # lit (ustr ''ass'') # assigned 6 value_char),
     \<lambda>f. seqs (lit [0x5BC6, 0x78BC] # assigned 6 value_char)]"

definition detect_password :: "str \<Rightarrow> bool" where
  "detect_password t = list_ex (\<lambda>p. re_search p t NOFLAG) password_patterns"

definition secret_key_patterns :: "pattern list" where
  "secret_key_patterns =
    [\<lambda>f. seqs (sets [''Ss'', ''Ee'', ''Cc'', ''Rr'', ''Ee'', ''Tt''] # assigned 16 key_char),
     \<lambda>f. seqs (sets [''Ss'', ''Ee'', ''Cc'', ''Rr'', ''Ee'', ''Tt''] # opt (one_of ''_-'')
           # sets [''Kk'', ''Ee'', ''Yy''] # assigned 16 key_char),
     \<lambda>f. seqs (sets [''Tt'', ''Oo'', ''Kk'', ''Ee'', ''Nn''] # assigned 20 key_char)]"

definition detect_secret_key :: "str \<Rightarrow> bool" where
  "detect_secret_key t = list_ex (\<lambda>p. re_search p t NOFLAG) secret_key_patterns"

definition credentials_patterns :: "pattern list" where
  "credentials_patterns =
    [\<lambda>f. seqs [sets [''Uu'', ''Ss'', ''Ee'', ''Rr'', ''Nn'', ''Aa'', ''Mm'', ''Ee''],
           Star ws, assign, Star (dot f),
           sets [''Pp'', ''Aa'', ''Ss'', ''Ss'', ''Ww'', ''Oo'', ''Rr'', ''Dd''],
           Star ws, assign],
     \<lambda>f. seqs [sets [''Aa'', ''Cc'', ''Cc'', ''Oo'', ''Uu'', ''Nn'', ''Tt''],
           Star ws, assign, Star (dot f),
           sets [''Pp'', ''Aa'', ''Ss'', ''Ss'', ''Ww'', ''Oo'', ''Rr'', ''Dd''],
           Star ws, assign],
     \<lambda>f. seqs [lit [0x767B, 0x5165], Star ws, assign, Star (dot f),
           lit [0x5BC6, 0x78BC], Star ws, assign]]"

definition detect_credentials :: "str \<Rightarrow> bool" where
  "detect_credentials t = list_ex (\<lambda>p. re_search p t DOTALL) credentials_patterns"

definition email_pattern :: pattern where
  "email_pattern =
     (\<lambda>f. seqs [AtLeast 1 (Atom False [rng CHR ''a'' CHR ''z'', rng CHR ''A'' CHR ''Z'',
                   rng CHR ''0'' CHR ''9'', chr CHR ''.'', chr CHR ''_'', chr CHR ''%'',
                   chr CHR ''+'', chr CHR ''-'']),
                 lit (ustr ''@''),
                 AtLeast 1 (Atom False [rng CHR ''a'' CHR ''z'', rng CHR ''A'' CHR ''Z'',
                   rng CHR ''0'' CHR ''9'', chr CHR ''.'', chr CHR ''-'']),
                 lit (ustr ''.''),
                 AtLeast 2 (Atom False [rng CHR ''a'' CHR ''z'', rng CHR ''A'' CHR ''Z''])])"

definition password_pattern :: pattern where
  "password_pattern =
     (\<lambda>f. seqs (sets [''Pp'', ''Aa'', ''Ss'', ''Ss'', ''Ww'', ''Oo'', ''Rr'', ''Dd'']
             # assigned 6 value_char))"

definition detect_email_password :: "str \<Rightarrow> bool" where
  "detect_email_password t =
     (if re_search email_pattern t NOFLAG \<and> re_search password_pattern t NOFLAG
      then True else False)"

section \<open>The decision: \<open>check_sensitive_info\<close>\<close>

text \<open>
  The five fixed warnings, as code points. In English: "API key detected, do not put
  sensitive data such as API keys in the prompt"; the same for passwords; for a secret
  key or token; for an account and password pair; for an e-mail address and password
  pair.
\<close>

definition warning_api_key :: str where
  "warning_api_key = [0x6AA2, 0x6E2C, 0x5230] @ ustr '' API Key''
     @ [0xFF0C, 0x8ACB, 0x52FF, 0x5728, 0x63D0, 0x793A, 0x4E2D, 0x5305, 0x542B]
     @ ustr '' API Key '' @ [0x7B49, 0x654F, 0x611F, 0x8CC7, 0x8A0A]"

definition warning_password :: str where
  "warning_password = [0x6AA2, 0x6E2C, 0x5230, 0x5BC6, 0x78BC, 0x8CC7, 0x8A0A, 0xFF0C,
     0x8ACB, 0x52FF, 0x5728, 0x63D0, 0x793A, 0x4E2D, 0x5305, 0x542B, 0x5BC6, 0x78BC,
     0x7B49, 0x654F, 0x611F, 0x8CC7, 0x8A0A]"

definition warning_secret_key :: str where
  "warning_secret_key = [0x6AA2, 0x6E2C, 0x5230] @ ustr '' Secret Key '' @ [0x6216]
     @ ustr '' Token''
     @ [0xFF0C, 0x8ACB, 0x52FF, 0x5728, 0x63D0, 0x793A, 0x4E2D, 0x5305, 0x542B, 0x6B64,
        0x985E, 0x654F, 0x611F, 0x8CC7, 0x8A0A]"

definition warning_credentials :: str where
  "warning_credentials = [0x6AA2, 0x6E2C, 0x5230, 0x5E33, 0x865F, 0x5BC6, 0x78BC, 0x7D44,
     0x5408, 0xFF0C, 0x8ACB, 0x52FF, 0x5728, 0x63D0, 0x793A, 0x4E2D, 0x5305, 0x542B,
     0x5E33, 0x865F, 0x5BC6, 0x78BC, 0x7B49, 0x654F, 0x611F, 0x8CC7, 0x8A0A]"

definition warning_email_password :: str where
  "warning_email_password = [0x6AA2, 0x6E2C, 0x5230, 0x96FB, 0x5B50, 0x90F5, 0x4EF6,
     0x548C, 0x5BC6, 0x78BC, 0x7D44, 0x5408, 0xFF0C, 0x8ACB, 0x52FF, 0x5728, 0x63D0,
     0x793A, 0x4E2D, 0x5305, 0x542B, 0x6B64, 0x985E, 0x654F, 0x611F, 0x8CC7, 0x8A0A]"

definition checks :: "((str \<Rightarrow> bool) \<times> str) list" where
  "checks =
    [(detect_api_key, warning_api_key),
     (detect_password, warning_password),
     (detect_secret_key, warning_secret_key),
     (detect_credentials, warning_credentials),
     (detect_email_password, warning_email_password)]"

text \<open>The \<open>for\<close> loop over \<open>checks\<close>: return at the first detector that fires.\<close>

fun first_match :: "((str \<Rightarrow> bool) \<times> str) list \<Rightarrow> str \<Rightarrow> bool \<times> str" where
  "first_match [] prompt = (False, [])"
| "first_match ((check_func, warning_msg) # rest) prompt =
     (if check_func prompt then (True, warning_msg) else first_match rest prompt)"

definition check_sensitive_info :: "str \<Rightarrow> bool \<times> str" where
  "check_sensitive_info prompt = first_match checks prompt"

section \<open>The hook: \<open>main\<close>\<close>

text \<open>
  What \<open>json.loads\<close> returns: \<open>None\<close>, a bool, an int, a float, a \<open>str\<close>, a list or a
  dict with string keys. A dict is an association list with distinct keys, and
  \<open>d.get(k, default)\<close> is \<open>map_of\<close>.
\<close>

datatype pyfloat = Finite rat | Infinite bool | NaN

datatype pyval =
    PNone
  | PBool bool
  | PInt int
  | PFloat pyfloat
  | PStr str
  | PList "pyval list"
  | PDict "(str \<times> pyval) list"

text \<open>Python's truth value, which \<open>if not prompt\<close> tests.\<close>

fun truthy :: "pyval \<Rightarrow> bool" where
  "truthy PNone = False"
| "truthy (PBool b) = b"
| "truthy (PInt i) = (i \<noteq> 0)"
| "truthy (PFloat x) = (x \<noteq> Finite 0)"
| "truthy (PStr s) = (s \<noteq> [])"
| "truthy (PList xs) = (xs \<noteq> [])"
| "truthy (PDict d) = (d \<noteq> [])"

text \<open>
  The exceptions that can reach \<open>main\<close>. The two that the library raises carry its
  message; \<open>AttributeError\<close> carries the object that has no \<open>get\<close>, and \<open>TypeError\<close> the
  object that \<open>re.search\<close> was given in place of a string.
\<close>

datatype exn =
    UnicodeDecodeError str
  | JSONDecodeError str
  | AttributeError pyval
  | TypeError pyval
  | OtherError str

text \<open>
  The library functions that \<open>main\<close> calls and that are no part of this program:
  \<open>bytes.decode('utf-8')\<close>, \<open>json.loads\<close> and \<open>str(e)\<close> of an exception.
\<close>

type_synonym bytes = "nat list"

record env =
  decode :: "bytes \<Rightarrow> exn + str"
  loads :: "str \<Rightarrow> exn + pyval"
  exn_str :: "exn \<Rightarrow> str"

text \<open>
  The dict that \<open>main\<close> serialises and writes: \<open>{"continue": c}\<close> when there is no
  message, \<open>{"continue": c, "user_message": m}\<close> when there is one.
  Every path of \<open>main\<close> writes one such dict to the standard output and returns; the
  write itself is taken to succeed.
\<close>

record response =
  continue :: bool
  user_message :: "str option"

definition json_error_prefix :: str where
  "json_error_prefix = ustr ''JSON '' @ [0x89E3, 0x6790, 0x932F, 0x8AA4] @ ustr '': ''"

definition error_prefix :: str where
  "error_prefix = [0x6AA2, 0x67E5, 0x904E, 0x7A0B, 0x4E2D, 0x767C, 0x751F, 0x932F, 0x8AA4]
     @ ustr '': ''"

text \<open>
  \<open>check_sensitive_info(prompt)\<close> on a value of any type: the first \<open>re.search\<close> of the
  first detector raises \<open>TypeError\<close> unless the prompt is a string.
\<close>

definition check_prompt :: "pyval \<Rightarrow> exn + bool \<times> str" where
  "check_prompt prompt =
     (case prompt of PStr s \<Rightarrow> Inr (check_sensitive_info s) | _ \<Rightarrow> Inl (TypeError prompt))"

text \<open>Lines 136 to 144: the response for a result of \<open>check_sensitive_info\<close>.\<close>

definition decision :: "bool \<times> str \<Rightarrow> response" where
  "decision r =
     (case r of (has_sensitive, warning_msg) \<Rightarrow>
        if has_sensitive then \<lparr>continue = False, user_message = Some warning_msg\<rparr>
        else \<lparr>continue = True, user_message = None\<rparr>)"

text \<open>
  The body of the outer \<open>try\<close>, with the check that it calls as a parameter: \<open>Inl e\<close> when
  the exception \<open>e\<close> leaves the body, \<open>Inr r\<close> when the body writes the response \<open>r\<close>.
  The inner handler catches \<open>JSONDecodeError\<close> only.
\<close>

definition try_block :: "(pyval \<Rightarrow> exn + bool \<times> str) \<Rightarrow> env \<Rightarrow> bytes \<Rightarrow> exn + response" where
  "try_block chk e stdin =
     (case decode e stdin of
        Inl err \<Rightarrow> Inl err
      | Inr input_data \<Rightarrow>
         (case loads e input_data of
            Inl (JSONDecodeError m) \<Rightarrow>
              Inr \<lparr>continue = True,
                   user_message = Some (json_error_prefix @ exn_str e (JSONDecodeError m))\<rparr>
          | Inl err \<Rightarrow> Inl err
          | Inr data \<Rightarrow>
             (case data of
                PDict d \<Rightarrow>
                  (let prompt = (case map_of d (ustr ''prompt'') of
                                   Some v \<Rightarrow> v | None \<Rightarrow> PStr [])
                   in if \<not> truthy prompt then Inr \<lparr>continue = True, user_message = None\<rparr>
                      else (case chk prompt of
                              Inl err \<Rightarrow> Inl err
                            | Inr r \<Rightarrow> Inr (decision r)))
              | _ \<Rightarrow> Inl (AttributeError data))))"

definition main_with :: "(pyval \<Rightarrow> exn + bool \<times> str) \<Rightarrow> env \<Rightarrow> bytes \<Rightarrow> response" where
  "main_with chk e stdin =
     (case try_block chk e stdin of
        Inr r \<Rightarrow> r
      | Inl err \<Rightarrow> \<lparr>continue = True, user_message = Some (error_prefix @ exn_str e err)\<rparr>)"

definition main :: "env \<Rightarrow> bytes \<Rightarrow> response" where
  "main e stdin = main_with check_prompt e stdin"

section \<open>Notions used to state the properties\<close>

text \<open>The left quotient of a language by a character.\<close>

definition Deriv :: "nat \<Rightarrow> str set \<Rightarrow> str set" where
  "Deriv c A = {w. c # w \<in> A}"

text \<open>A label up to the case of its ASCII letters: \<open>caseless ''key'' w\<close>.\<close>

definition lower :: "nat \<Rightarrow> nat" where
  "lower c = (if 65 \<le> c \<and> c \<le> 90 then c + 32 else c)"

definition caseless :: "string \<Rightarrow> str \<Rightarrow> bool" where
  "caseless s w \<longleftrightarrow> map lower w = ustr s"

definition spaces :: "str \<Rightarrow> bool" where
  "spaces w \<longleftrightarrow> list_all is_space w"

definition is_assign :: "nat \<Rightarrow> bool" where \<comment> \<open>\<open>:\<close> or \<open>=\<close>\<close>
  "is_assign c \<longleftrightarrow> c = 58 \<or> c = 61"

definition opt_quote :: "str \<Rightarrow> bool" where \<comment> \<open>nothing, \<open>"\<close> or \<open>'\<close>\<close>
  "opt_quote q \<longleftrightarrow> q = [] \<or> q = [34] \<or> q = [39]"

definition is_key_char :: "nat \<Rightarrow> bool" where \<comment> \<open>a letter, a digit, \<open>_\<close> or \<open>-\<close>\<close>
  "is_key_char c \<longleftrightarrow>
     (65 \<le> c \<and> c \<le> 90) \<or> (97 \<le> c \<and> c \<le> 122) \<or> (48 \<le> c \<and> c \<le> 57) \<or> c = 95 \<or> c = 45"

text \<open>
  The text of \<open>str(e)\<close> as CPython 3.11 writes it. The exceptions of the library
  carry their message; for the two that the interpreter raises in \<open>main\<close> the message
  names the type of the object: \<open>'list' object has no attribute 'get'\<close> and
  \<open>expected string or bytes-like object, got 'int'\<close>. Code point 39 is the apostrophe.
\<close>

fun type_name :: "pyval \<Rightarrow> str" where
  "type_name PNone = ustr ''NoneType''"
| "type_name (PBool b) = ustr ''bool''"
| "type_name (PInt i) = ustr ''int''"
| "type_name (PFloat x) = ustr ''float''"
| "type_name (PStr s) = ustr ''str''"
| "type_name (PList xs) = ustr ''list''"
| "type_name (PDict d) = ustr ''dict''"

definition message_of :: "exn \<Rightarrow> str" where
  "message_of err =
     (case err of
        UnicodeDecodeError m \<Rightarrow> m
      | JSONDecodeError m \<Rightarrow> m
      | AttributeError v \<Rightarrow>
          [39] @ type_name v @ [39] @ ustr '' object has no attribute '' @ [39] @ ustr ''get''
            @ [39]
      | TypeError v \<Rightarrow>
          ustr ''expected string or bytes-like object, got '' @ [39] @ type_name v @ [39]
      | OtherError m \<Rightarrow> m)"

text \<open>A JSON string literal of a plain text: the text between double quotes.\<close>

definition quoted :: "str \<Rightarrow> str" where
  "quoted s = [34] @ s @ [34]"

text \<open>
  The library as one run of \<open>main\<close> sees it. A run calls \<open>bytes.decode\<close> once, on the
  bytes read, and \<open>json.loads\<close> at most once, on the text decoded, so for an example the
  library is given by the two values that these calls return on the input of the
  example; the examples below give them as Python computes them.
\<close>

definition run_env :: "exn + str \<Rightarrow> exn + pyval \<Rightarrow> env" where
  "run_env decoded loaded =
     \<lparr>decode = (\<lambda>b. decoded), loads = (\<lambda>s. loaded), exn_str = message_of\<rparr>"

section \<open>The signatures of the specification\<close>












section \<open>Regular languages and the matcher\<close>

lemma conc_iff: "w \<in> conc A B \<longleftrightarrow> (\<exists>u v. w = u @ v \<and> u \<in> A \<and> v \<in> B)"
  by (auto simp: conc_def)

lemma concI: "u \<in> A \<Longrightarrow> v \<in> B \<Longrightarrow> u @ v \<in> conc A B"
  by (auto simp: conc_def)

lemma conc_unit_left: "conc {[]} A = A"
  by (auto simp: conc_def)

lemma conc_zero_left: "conc {} A = {}"
  by (auto simp: conc_def)

lemma conc_assoc: "conc (conc A B) C = conc A (conc B C)"
proof (rule set_eqI)
  fix w
  show "w \<in> conc (conc A B) C \<longleftrightarrow> w \<in> conc A (conc B C)"
  proof
    assume "w \<in> conc (conc A B) C"
    then obtain a b c where "w = (a @ b) @ c" "a \<in> A" "b \<in> B" "c \<in> C"
      by (auto simp: conc_iff)
    then show "w \<in> conc A (conc B C)"
      by (auto intro!: concI)
  next
    assume "w \<in> conc A (conc B C)"
    then obtain a b c where w: "w = a @ (b @ c)" and m: "a \<in> A" "b \<in> B" "c \<in> C"
      by (auto simp: conc_iff)
    have "(a @ b) @ c \<in> conc (conc A B) C"
      using m by (intro concI)
    then show "w \<in> conc (conc A B) C"
      using w by simp
  qed
qed

lemma nil_in_conc: "[] \<in> conc A B \<longleftrightarrow> [] \<in> A \<and> [] \<in> B"
  by (auto simp: conc_iff)

lemma nil_in_pow: "[] \<in> pow A n \<longleftrightarrow> n = 0 \<or> [] \<in> A"
  by (induction n) (auto simp: nil_in_conc)

lemma star_cons_split:
  "w \<in> star A \<Longrightarrow> w = c # x \<Longrightarrow> \<exists>u v. x = u @ v \<and> c # u \<in> A \<and> v \<in> star A"
proof (induction arbitrary: x rule: star.induct)
  case star_empty
  then show ?case by simp
next
  case (star_more u v)
  show ?case
  proof (cases u)
    case Nil
    with star_more show ?thesis by simp
  next
    case (Cons a u')
    with star_more.prems have "a = c" "x = u' @ v" by simp_all
    with Cons star_more.hyps show ?thesis by blast
  qed
qed

lemma Deriv_empty: "Deriv c {} = {}" and Deriv_unit: "Deriv c {[]} = {}"
  by (simp_all add: Deriv_def)

lemma Deriv_union: "Deriv c (A \<union> B) = Deriv c A \<union> Deriv c B"
  by (auto simp: Deriv_def)

lemma Deriv_conc:
  "Deriv c (conc A B) = conc (Deriv c A) B \<union> (if [] \<in> A then Deriv c B else {})"
proof (rule set_eqI)
  fix w
  show "w \<in> Deriv c (conc A B) \<longleftrightarrow>
        w \<in> conc (Deriv c A) B \<union> (if [] \<in> A then Deriv c B else {})"
  proof
    assume "w \<in> Deriv c (conc A B)"
    then obtain u v where uv: "c # w = u @ v" "u \<in> A" "v \<in> B"
      by (auto simp: Deriv_def conc_iff)
    show "w \<in> conc (Deriv c A) B \<union> (if [] \<in> A then Deriv c B else {})"
    proof (cases u)
      case Nil
      with uv show ?thesis by (simp add: Deriv_def)
    next
      case (Cons a u')
      with uv have "w = u' @ v" "c # u' \<in> A" by simp_all
      with uv(3) have "w \<in> conc (Deriv c A) B"
        by (auto simp: conc_iff Deriv_def)
      then show ?thesis by simp
    qed
  next
    assume "w \<in> conc (Deriv c A) B \<union> (if [] \<in> A then Deriv c B else {})"
    then consider "w \<in> conc (Deriv c A) B" | "[] \<in> A" "w \<in> Deriv c B"
      by (auto split: if_splits)
    then show "w \<in> Deriv c (conc A B)"
    proof cases
      case 1
      then obtain u v where "w = u @ v" "c # u \<in> A" "v \<in> B"
        by (auto simp: conc_iff Deriv_def)
      then have "(c # u) @ v \<in> conc A B" by (intro concI)
      with \<open>w = u @ v\<close> show ?thesis by (simp add: Deriv_def)
    next
      case 2
      then have "[] @ (c # w) \<in> conc A B"
        by (intro concI) (simp_all add: Deriv_def)
      then show ?thesis by (simp add: Deriv_def)
    qed
  qed
qed

lemma Deriv_star: "Deriv c (star A) = conc (Deriv c A) (star A)"
proof (rule set_eqI)
  fix w
  show "w \<in> Deriv c (star A) \<longleftrightarrow> w \<in> conc (Deriv c A) (star A)"
  proof
    assume "w \<in> Deriv c (star A)"
    then have "c # w \<in> star A" by (simp add: Deriv_def)
    from star_cons_split [OF this refl]
    show "w \<in> conc (Deriv c A) (star A)"
      by (auto simp: conc_iff Deriv_def)
  next
    assume "w \<in> conc (Deriv c A) (star A)"
    then obtain u v where "w = u @ v" "c # u \<in> A" "v \<in> star A"
      by (auto simp: conc_iff Deriv_def)
    then have "(c # u) @ v \<in> star A" by (intro star_more)
    with \<open>w = u @ v\<close> show "w \<in> Deriv c (star A)"
      by (simp add: Deriv_def)
  qed
qed

lemma lang_plus: "lang (plus r s) = lang r \<union> lang s"
  by (induction r s rule: plus.induct) simp_all

lemma lang_times: "lang (times r s) = conc (lang r) (lang s)"
  by (induction r s rule: times.induct) (simp_all add: conc_unit_left conc_zero_left)

lemma nullable_iff: "nullable r \<longleftrightarrow> [] \<in> lang r"
  by (induction r) (auto simp: nil_in_conc nil_in_pow star_empty)

lemma lang_deriv: "lang (deriv c r) = Deriv c (lang r)"
proof (induction c r rule: deriv.induct)
  case (3 c neg items)
  then show ?case by (auto simp: Deriv_def)
next
  case (7 c r)
  then show ?case
    by (simp add: lang_times Deriv_star conc_unit_left)
next
  case (8 c n r)
  then show ?case
    by (simp add: lang_times lang_plus Deriv_conc conc_assoc nullable_iff)
next
  case (10 c n r)
  then show ?case
    by (simp add: lang_times lang_plus Deriv_conc nullable_iff)
qed (simp_all add: Deriv_empty Deriv_unit lang_times lang_plus Deriv_conc Deriv_star Deriv_union nullable_iff)

lemma matches_iff: "matches r w \<longleftrightarrow> w \<in> lang r"
  by (induction w arbitrary: r) (simp_all add: nullable_iff lang_deriv Deriv_def)

lemma lang_any_text: "lang any_text = UNIV"
proof -
  have "w \<in> star {[c] | c. True}" for w :: str
  proof (induction w)
    case Nil
    show ?case by (rule star_empty)
  next
    case (Cons a w)
    have "[a] @ w \<in> star {[c] | c. True}"
      using Cons by (intro star_more) auto
    then show ?case by simp
  qed
  then show ?thesis
    by (auto simp: any_text_def accepts_def)
qed

lemma re_search_iff:
  "re_search p t f \<longleftrightarrow> (\<exists>u v w. t = u @ v @ w \<and> v \<in> lang (p f))"
  by (auto simp: re_search_def matches_iff lang_any_text conc_iff)

subsection \<open>Evaluating the detectors on a given text\<close>

lemma deriv_AtLeast_numeral:
  "deriv c (AtLeast (numeral k) r) =
     (if nullable r
      then plus (times (deriv c r) (AtLeast (pred_numeral k) r))
             (deriv c (AtLeast (pred_numeral k) r))
      else times (deriv c r) (AtLeast (pred_numeral k) r))"
  by (simp add: numeral_eq_Suc)

lemma deriv_Exactly_numeral:
  "deriv c (Exactly (numeral k) r) =
     (if nullable r
      then plus (times (deriv c r) (Exactly (pred_numeral k) r))
             (deriv c (Exactly (pred_numeral k) r))
      else times (deriv c r) (Exactly (pred_numeral k) r))"
  by (simp add: numeral_eq_Suc)

lemmas pattern_defs =
  seqs_def sets_def one_of_def lit_def rng_def chr_def ws_def assign_def quote_def
  key_char_def value_char_def assigned_def opt_def any_text_def dot_def
  api_key_patterns_def password_pattern_def password_patterns_def
  secret_key_patterns_def credentials_patterns_def email_pattern_def

lemmas search_defs =
  re_search_def ustr_def accepts_def is_space_def deriv_AtLeast_numeral
  deriv_Exactly_numeral pattern_defs

lemmas detector_defs =
  detect_api_key_def detect_password_def detect_secret_key_def detect_credentials_def
  detect_email_password_def search_defs

subsection \<open>Texts that a pattern matches\<close>

lemma lang_seqs_Nil: "[] \<in> lang (seqs [])"
  by (simp add: seqs_def)

lemma lang_seqs_Cons: "u \<in> lang r \<Longrightarrow> v \<in> lang (seqs rs) \<Longrightarrow> u @ v \<in> lang (seqs (r # rs))"
  by (simp add: seqs_def concI)

lemma star_chars: "list_all (\<lambda>c. [c] \<in> A) w \<Longrightarrow> w \<in> star A"
proof (induction w)
  case Nil
  show ?case by (rule star_empty)
next
  case (Cons c w)
  then have "[c] @ w \<in> star A"
    by (intro star_more) simp_all
  then show ?case by simp
qed

lemma lang_Star_Atom: "list_all (accepts neg items) w \<Longrightarrow> w \<in> lang (Star (Atom neg items))"
proof -
  assume "list_all (accepts neg items) w"
  then have "list_all (\<lambda>c. [c] \<in> lang (Atom neg items)) w"
    by (simp add: list_all_iff)
  then show ?thesis
    by (simp add: star_chars)
qed

lemma lang_AtLeast_Atom:
  "n \<le> length w \<Longrightarrow> list_all (accepts neg items) w \<Longrightarrow> w \<in> lang (AtLeast n (Atom neg items))"
proof (induction n arbitrary: w)
  case 0
  then have "w \<in> star (lang (Atom neg items))"
    by (intro star_chars) (simp add: list_all_iff)
  then show ?case by (simp add: conc_unit_left)
next
  case (Suc n)
  then obtain c w' where w: "w = c # w'"
    by (cases w) auto
  with Suc have "w' \<in> lang (AtLeast n (Atom neg items))" "accepts neg items c"
    by simp_all
  then have "[c] @ w' \<in> conc (lang (Atom neg items)) (lang (AtLeast n (Atom neg items)))"
    by (intro concI) simp_all
  with w show ?case by (simp add: conc_assoc)
qed

lemma lang_sets: "list_all2 (\<lambda>c s. c \<in> of_char ` set s) w ss \<Longrightarrow> w \<in> lang (sets ss)"
proof (induction w ss rule: list_all2_induct)
  case Nil
  show ?case by (simp add: sets_def seqs_def)
next
  case (Cons c w s ss)
  then have "[c] \<in> lang (one_of s)"
    by (auto simp: one_of_def accepts_def list_ex_iff)
  then have "[c] @ w \<in> lang (seqs (one_of s # map one_of ss))"
    using Cons.IH unfolding sets_def by (rule lang_seqs_Cons)
  then show ?case by (simp add: sets_def)
qed

lemma lang_lit: "w \<in> lang (lit w)"
proof (induction w)
  case Nil
  show ?case by (simp add: lit_def seqs_def)
next
  case (Cons c w)
  have "[c] \<in> lang (Atom False [Ch c])"
    by (simp add: accepts_def)
  then have "[c] @ w \<in> lang (seqs (Atom False [Ch c] # map (\<lambda>c. Atom False [Ch c]) w))"
    using Cons.IH unfolding lit_def by (rule lang_seqs_Cons)
  then show ?case by (simp add: lit_def)
qed

lemma lang_opt_Nil: "[] \<in> lang (opt r)"
  by (simp add: opt_def)

lemma re_searchI: "m \<in> lang (p f) \<Longrightarrow> t = pre @ m @ post \<Longrightarrow> re_search p t f"
  by (auto simp: re_search_iff)

lemma caseless_sets:
  assumes "caseless s w"
    and "list_all2 (\<lambda>l p. \<forall>c. lower c = of_char l \<longrightarrow> c \<in> of_char ` set p) s ss"
  shows "w \<in> lang (sets ss)"
proof -
  from assms(1) have "list_all2 (\<lambda>c l. lower c = of_char l) w s"
    by (simp add: caseless_def ustr_def list_all2_conv_all_nth list_eq_iff_nth_eq)
  from this assms(2) have "list_all2 (\<lambda>c p. c \<in> of_char ` set p) w ss"
    by (rule list_all2_trans [rotated]) blast
  then show ?thesis by (rule lang_sets)
qed

lemma spaces_Star: "spaces w \<Longrightarrow> w \<in> lang (Star ws)"
  unfolding ws_def spaces_def
  by (rule lang_Star_Atom) (simp add: accepts_def list_all_iff)

lemma assign_char: "is_assign c \<Longrightarrow> [c] \<in> lang assign"
  by (auto simp: is_assign_def assign_def one_of_def accepts_def)

lemma opt_quote_lang: "opt_quote q \<Longrightarrow> q \<in> lang (opt quote)"
  by (auto simp: opt_quote_def opt_def quote_def accepts_def)

lemma key_chars_AtLeast:
  "n \<le> length v \<Longrightarrow> list_all is_key_char v \<Longrightarrow> v \<in> lang (AtLeast n key_char)"
  unfolding key_char_def
  by (rule lang_AtLeast_Atom)
     (auto simp: accepts_def is_key_char_def rng_def chr_def list_all_iff)

lemma anything_Star_dot: "w \<in> lang (Star (dot DOTALL))"
  unfolding dot_def flag.case
  by (rule lang_Star_Atom) (simp add: accepts_def list_all_iff)

section \<open>The decision engine\<close>

lemma warnings_differ:
  "warning_api_key \<noteq> warning_email_password"
  "warning_password \<noteq> warning_email_password"
  "warning_secret_key \<noteq> warning_email_password"
  "warning_credentials \<noteq> warning_email_password"
  "warning_email_password \<noteq> []"
  by (simp_all add: warning_api_key_def warning_password_def warning_secret_key_def
      warning_credentials_def warning_email_password_def ustr_def)

lemma first_match_dispatch:
  "check_sensitive_info t =
     (if detect_api_key t then (True, warning_api_key)
      else if detect_password t then (True, warning_password)
      else if detect_secret_key t then (True, warning_secret_key)
      else if detect_credentials t then (True, warning_credentials)
      else if detect_email_password t then (True, warning_email_password)
      else (False, []))"
  by (simp add: check_sensitive_info_def checks_def)

subsection \<open>The detectors and the signatures\<close>























text \<open>
  C2. The password pattern of \<open>detect_email_password\<close> is the first pattern of
  \<open>detect_password\<close>, so a text on which the fifth detector fires is one on which the
  second fires, and \<open>check_sensitive_info\<close> never returns the fifth warning.
\<close>

theorem email_password_shadowed:
  "(detect_email_password t \<longrightarrow> detect_password t)
   \<and> snd (check_sensitive_info t) \<noteq> warning_email_password"
proof -
  have imp: "detect_password t" if "detect_email_password t"
    using that
    by (simp add: detect_email_password_def detect_password_def password_patterns_def
        password_pattern_def split: if_splits)
  have "snd (check_sensitive_info t) \<noteq> warning_email_password"
  proof (cases "detect_password t")
    case True
    then show ?thesis
      using warnings_differ by (simp add: check_sensitive_info_def checks_def)
  next
    case False
    with imp have "\<not> detect_email_password t" by blast
    then show ?thesis
      using warnings_differ by (simp add: check_sensitive_info_def checks_def)
  qed
  with imp show ?thesis by blast
qed

theorem email_password_shadowed_witness:
  "detect_email_password (ustr ''a@b.com password: abcdef'')
   \<and> detect_password (ustr ''a@b.com password: abcdef'')
   \<and> snd (check_sensitive_info (ustr ''a@b.com password: abcdef'')) \<noteq> warning_email_password"
proof -
  have "detect_email_password (ustr ''a@b.com password: abcdef'')"
    by (simp add: detector_defs)
  then show ?thesis
    using email_password_shadowed [of "ustr ''a@b.com password: abcdef''"] by simp
qed

text \<open>
  C9. On \<open>username: bob password: hunter2\<close> the API-key detector does not fire, the
  password detector fires and so does the credential-pair detector; the password
  detector comes first, so the result is deny (\<open>continue\<close> false) with the password
  warning.
\<close>

theorem username_bob_example:
  "\<not> detect_api_key (ustr ''username: bob password: hunter2'')
   \<and> detect_password (ustr ''username: bob password: hunter2'')
   \<and> detect_credentials (ustr ''username: bob password: hunter2'')
   \<and> check_sensitive_info (ustr ''username: bob password: hunter2'')
       = (True, warning_password)
   \<and> decision (check_sensitive_info (ustr ''username: bob password: hunter2''))
       = \<lparr>continue = False, user_message = Some warning_password\<rparr>"
proof -
  have d: "\<not> detect_api_key (ustr ''username: bob password: hunter2'')"
    "detect_password (ustr ''username: bob password: hunter2'')"
    "detect_credentials (ustr ''username: bob password: hunter2'')"
    by (simp_all add: detector_defs)
  then have "check_sensitive_info (ustr ''username: bob password: hunter2'')
      = (True, warning_password)"
    by (simp add: check_sensitive_info_def checks_def)
  with d show ?thesis
    by (simp add: decision_def)
qed

section \<open>The labels of the detectors\<close>

lemma detect_by_pattern:
  "p \<in> set ps \<Longrightarrow> re_search p t f \<Longrightarrow> list_ex (\<lambda>p. re_search p t f) ps"
  by (auto simp: list_ex_iff)

lemma label_secret:
  "caseless ''secret'' w \<Longrightarrow> w \<in> lang (sets [''Ss'', ''Ee'', ''Cc'', ''Rr'', ''Ee'', ''Tt''])"
  by (erule caseless_sets) (auto simp: lower_def split: if_splits)

lemma label_key: "caseless ''key'' w \<Longrightarrow> w \<in> lang (sets [''Kk'', ''Ee'', ''Yy''])"
  by (erule caseless_sets) (auto simp: lower_def split: if_splits)

lemma label_username:
  "caseless ''username'' w
   \<Longrightarrow> w \<in> lang (sets [''Uu'', ''Ss'', ''Ee'', ''Rr'', ''Nn'', ''Aa'', ''Mm'', ''Ee''])"
  by (erule caseless_sets) (auto simp: lower_def split: if_splits)

lemma label_account:
  "caseless ''account'' w
   \<Longrightarrow> w \<in> lang (sets [''Aa'', ''Cc'', ''Cc'', ''Oo'', ''Uu'', ''Nn'', ''Tt''])"
  by (erule caseless_sets) (auto simp: lower_def split: if_splits)

lemma label_password:
  "caseless ''password'' w
   \<Longrightarrow> w \<in> lang (sets [''Pp'', ''Aa'', ''Ss'', ''Ss'', ''Ww'', ''Oo'', ''Rr'', ''Dd''])"
  by (erule caseless_sets) (auto simp: lower_def split: if_splits)

text \<open>
  C6. The label \<open>pass\<close> is matched with its first letter in either case only: on
  \<open>PASS: hunter22\<close> the password detector does not fire and \<open>check_sensitive_info\<close>
  allows the text, while \<open>pass\<close>, \<open>Pass\<close>, \<open>PWD\<close> and \<open>PASSWORD\<close> with the same value are
  detected.
\<close>

theorem upper_case_pass_not_detected:
  "\<not> detect_password (ustr ''PASS: hunter22'')
   \<and> check_sensitive_info (ustr ''PASS: hunter22'') = (False, [])
   \<and> detect_password (ustr ''pass: hunter22'')
   \<and> detect_password (ustr ''Pass: hunter22'')
   \<and> detect_password (ustr ''PWD: hunter22'')
   \<and> detect_password (ustr ''PASSWORD: hunter22'')"
proof -
  have n: "\<not> detect_api_key (ustr ''PASS: hunter22'')"
    "\<not> detect_password (ustr ''PASS: hunter22'')"
    "\<not> detect_secret_key (ustr ''PASS: hunter22'')"
    "\<not> detect_credentials (ustr ''PASS: hunter22'')"
    "\<not> detect_email_password (ustr ''PASS: hunter22'')"
    by (simp_all add: detector_defs)
  then have r: "check_sensitive_info (ustr ''PASS: hunter22'') = (False, [])"
    by (simp add: check_sensitive_info_def checks_def)
  have "detect_password (ustr ''pass: hunter22'')"
    "detect_password (ustr ''Pass: hunter22'')"
    "detect_password (ustr ''PWD: hunter22'')"
    "detect_password (ustr ''PASSWORD: hunter22'')"
    by (simp_all add: detector_defs)
  with n r show ?thesis by simp
qed

text \<open>
  C7, as the claim states it, fails: with a space between \<open>secret\<close> and \<open>key\<close> the
  detector does not fire.
\<close>

theorem secret_space_key_not_detected:
  "\<not> detect_secret_key (ustr ''secret key: abcdefghijklmnop'')"
  by (simp add: detector_defs)

text \<open>
  C7, amended. The label is \<open>secret\<close> and \<open>key\<close> in any case, joined by an underscore, by
  a hyphen or by nothing. When it is followed by optional white space, \<open>:\<close> or \<open>=\<close>,
  optional white space, an optional quote and at least 16 characters from
  \<open>[A-Za-z0-9_-]\<close>, the detector fires, wherever in the text this occurs.
\<close>

theorem secret_key_label_detected:
  assumes "caseless ''secret'' a"
    and "sep = [] \<or> sep = ustr ''_'' \<or> sep = ustr ''-''"
    and "caseless ''key'' b"
    and "spaces s1" and "is_assign op" and "spaces s2" and "opt_quote q"
    and "16 \<le> length v" and "list_all is_key_char v"
  shows "detect_secret_key (pre @ a @ sep @ b @ s1 @ [op] @ s2 @ q @ v @ post)"
proof -
  let ?p = "\<lambda>f::flag. seqs (sets [''Ss'', ''Ee'', ''Cc'', ''Rr'', ''Ee'', ''Tt'']
      # opt (one_of ''_-'') # sets [''Kk'', ''Ee'', ''Yy''] # assigned 16 key_char)"
  have sep: "sep \<in> lang (opt (one_of ''_-''))"
    using assms(2) by (auto simp: opt_def one_of_def accepts_def ustr_def)
  have "a @ sep @ b @ s1 @ [op] @ s2 @ q @ v @ [] @ [] \<in> lang (?p NOFLAG)"
    unfolding assigned_def
    by (intro lang_seqs_Cons lang_seqs_Nil label_secret label_key sep spaces_Star
        assign_char opt_quote_lang key_chars_AtLeast lang_opt_Nil assms)
  then have "re_search ?p (pre @ a @ sep @ b @ s1 @ [op] @ s2 @ q @ v @ post) NOFLAG"
    by (rule re_searchI) simp
  moreover have "?p \<in> set secret_key_patterns"
    by (simp add: secret_key_patterns_def)
  ultimately show ?thesis
    unfolding detect_secret_key_def by (rule detect_by_pattern [rotated])
qed

theorem secret_key_label_detected_witness:
  "caseless ''secret'' (ustr ''SECRET'') \<and> caseless ''key'' (ustr ''Key'')
   \<and> spaces (ustr '' '') \<and> is_assign 61 \<and> opt_quote [34]
   \<and> 16 \<le> length (ustr ''abcdefghijklmnop'') \<and> list_all is_key_char (ustr ''abcdefghijklmnop'')
   \<and> detect_secret_key (ustr ''my '' @ ustr ''SECRET'' @ ustr ''_'' @ ustr ''Key'' @ ustr '' ''
        @ [61] @ [] @ [34] @ ustr ''abcdefghijklmnop'' @ [34])"
proof -
  have h: "caseless ''secret'' (ustr ''SECRET'')" "caseless ''key'' (ustr ''Key'')"
    "spaces (ustr '' '')" "is_assign 61" "spaces []" "opt_quote [34]"
    "16 \<le> length (ustr ''abcdefghijklmnop'')" "list_all is_key_char (ustr ''abcdefghijklmnop'')"
    "ustr ''_'' = [] \<or> ustr ''_'' = ustr ''_'' \<or> ustr ''_'' = ustr ''-''"
    by (simp_all add: caseless_def lower_def ustr_def spaces_def is_space_def is_assign_def
        opt_quote_def is_key_char_def)
  show ?thesis
    using h secret_key_label_detected [OF h(1) h(9) h(2) h(3) h(4) h(5) h(6) h(7) h(8),
        of "ustr ''my ''" "[34]"]
    by simp
qed

text \<open>
  C8, as the claim states it, fails: \<open>username\<close> followed on the next line by the
  Chinese label for password is none of the three pairs of labels of the detector.
\<close>

theorem username_then_chinese_password_not_detected:
  "\<not> detect_credentials (ustr ''username: bob'' @ [10, 0x5BC6, 0x78BC] @ ustr '': hunter2'')"
  by (simp add: detector_defs)

text \<open>
  C8, amended. The pairs of labels are \<open>username\<close> then \<open>password\<close> and \<open>account\<close> then
  \<open>password\<close>, in any case, and the Chinese label for login (U+767B U+5165) then the
  one for password (U+5BC6 U+78BC). When the first label and the second are each
  followed by optional white space and \<open>:\<close> or \<open>=\<close>, in this order, the detector fires
  whatever lies between them, line breaks included.
\<close>

theorem credentials_across_lines:
  assumes "(caseless ''username'' a \<or> caseless ''account'' a) \<and> caseless ''password'' b
      \<or> a = [0x767B, 0x5165] \<and> b = [0x5BC6, 0x78BC]"
    and "spaces s1" and "is_assign op1" and "spaces s2" and "is_assign op2"
  shows "detect_credentials (pre @ a @ s1 @ [op1] @ mid @ b @ s2 @ [op2] @ post)"
proof -
  have tail: "s1 @ [op1] @ mid @ w @ s2 @ [op2] @ []
      \<in> lang (seqs [Star ws, assign, Star (dot DOTALL), r, Star ws, assign])"
    if "w \<in> lang r" for w r
    by (intro lang_seqs_Cons lang_seqs_Nil spaces_Star assign_char anything_Star_dot that assms)
  have found: "detect_credentials (pre @ a @ s1 @ [op1] @ mid @ b @ s2 @ [op2] @ post)"
    if p: "(\<lambda>f. seqs [l, Star ws, assign, Star (dot f), r, Star ws, assign])
        \<in> set credentials_patterns"
      and a: "a \<in> lang l" and b: "b \<in> lang r" for l r
  proof -
    let ?p = "\<lambda>f. seqs [l, Star ws, assign, Star (dot f), r, Star ws, assign]"
    have "a @ s1 @ [op1] @ mid @ b @ s2 @ [op2] @ [] \<in> lang (?p DOTALL)"
      using a tail [OF b] by (rule lang_seqs_Cons)
    then have "re_search ?p (pre @ a @ s1 @ [op1] @ mid @ b @ s2 @ [op2] @ post) DOTALL"
      by (rule re_searchI) simp
    with p show ?thesis
      unfolding detect_credentials_def by (rule detect_by_pattern)
  qed
  from assms(1) consider
      "caseless ''username'' a" "caseless ''password'' b"
    | "caseless ''account'' a" "caseless ''password'' b"
    | "a = [0x767B, 0x5165]" "b = [0x5BC6, 0x78BC]"
    by blast
  then show ?thesis
  proof cases
    case 1
    show ?thesis
    proof (rule found)
      show "a \<in> lang (sets [''Uu'', ''Ss'', ''Ee'', ''Rr'', ''Nn'', ''Aa'', ''Mm'', ''Ee''])"
        using 1(1) by (rule label_username)
      show "b \<in> lang (sets [''Pp'', ''Aa'', ''Ss'', ''Ss'', ''Ww'', ''Oo'', ''Rr'', ''Dd''])"
        using 1(2) by (rule label_password)
    qed (simp add: credentials_patterns_def)
  next
    case 2
    show ?thesis
    proof (rule found)
      show "a \<in> lang (sets [''Aa'', ''Cc'', ''Cc'', ''Oo'', ''Uu'', ''Nn'', ''Tt''])"
        using 2(1) by (rule label_account)
      show "b \<in> lang (sets [''Pp'', ''Aa'', ''Ss'', ''Ss'', ''Ww'', ''Oo'', ''Rr'', ''Dd''])"
        using 2(2) by (rule label_password)
    qed (simp add: credentials_patterns_def)
  next
    case 3
    show ?thesis
    proof (rule found)
      show "a \<in> lang (lit [0x767B, 0x5165])" "b \<in> lang (lit [0x5BC6, 0x78BC])"
        unfolding 3 by (rule lang_lit)+
    qed (simp add: credentials_patterns_def)
  qed
qed

theorem credentials_across_lines_witness:
  "caseless ''username'' (ustr ''UserName'') \<and> caseless ''password'' (ustr ''PASSWORD'')
   \<and> spaces [] \<and> is_assign 58 \<and> spaces (ustr '' '') \<and> is_assign 61
   \<and> detect_credentials (ustr ''UserName'' @ [] @ [58] @ (ustr '' bob'' @ [10, 10])
        @ ustr ''PASSWORD'' @ ustr '' '' @ [61] @ ustr '' x'')"
proof -
  have h: "(caseless ''username'' (ustr ''UserName'') \<or> caseless ''account'' (ustr ''UserName''))
        \<and> caseless ''password'' (ustr ''PASSWORD'')
      \<or> ustr ''UserName'' = [0x767B, 0x5165] \<and> ustr ''PASSWORD'' = [0x5BC6, 0x78BC]"
    "spaces []" "is_assign 58" "spaces (ustr '' '')" "is_assign 61"
    "caseless ''username'' (ustr ''UserName'')" "caseless ''password'' (ustr ''PASSWORD'')"
    by (simp_all add: caseless_def lower_def ustr_def spaces_def is_space_def is_assign_def)
  show ?thesis
    using h credentials_across_lines [OF h(1) h(2) h(3) h(4) h(5),
        of "[]" "ustr '' bob'' @ [10, 10]" "ustr '' x''"]
    by simp
qed

section \<open>The hook\<close>

lemma prefixes_not_empty: "json_error_prefix \<noteq> []" "error_prefix \<noteq> []"
  by (simp_all add: json_error_prefix_def error_prefix_def)

lemma check_sensitive_info_fires:
  "fst (check_sensitive_info s) \<Longrightarrow> list_ex (\<lambda>c. fst c s) checks"
  by (simp add: check_sensitive_info_def checks_def split: if_splits)

lemma try_block_blocks:
  assumes "try_block check_prompt e stdin = Inr r" and "\<not> continue r"
  shows "\<exists>input_data d s. decode e stdin = Inr input_data
      \<and> loads e input_data = Inr (PDict d)
      \<and> map_of d (ustr ''prompt'') = Some (PStr s) \<and> s \<noteq> []
      \<and> fst (check_sensitive_info s)
      \<and> r = \<lparr>continue = False, user_message = Some (snd (check_sensitive_info s))\<rparr>"
proof -
  from assms obtain input_data where dec: "decode e stdin = Inr input_data"
    by (auto simp: try_block_def split: sum.splits)
  from assms dec obtain d where lo: "loads e input_data = Inr (PDict d)"
    by (auto simp: try_block_def split: sum.splits exn.splits pyval.splits)
  define prompt where
    "prompt = (case map_of d (ustr ''prompt'') of Some v \<Rightarrow> v | None \<Rightarrow> PStr [])"
  from assms dec lo have t: "truthy prompt"
    by (auto simp: try_block_def prompt_def Let_def split: if_splits)
  with assms dec lo obtain res where res: "check_prompt prompt = Inr res" "r = decision res"
    by (auto simp: try_block_def prompt_def Let_def split: sum.splits)
  from res(1) obtain s where s: "prompt = PStr s" "res = check_sensitive_info s"
    by (auto simp: check_prompt_def split: pyval.splits)
  from t s(1) have ne: "s \<noteq> []" by simp
  with s(1) have get: "map_of d (ustr ''prompt'') = Some (PStr s)"
    by (auto simp: prompt_def split: option.splits)
  from assms(2) res(2) s(2) have "fst (check_sensitive_info s)"
    "r = \<lparr>continue = False, user_message = Some (snd (check_sensitive_info s))\<rparr>"
    by (auto simp: decision_def split: prod.splits if_splits)
  with dec lo get ne show ?thesis by blast
qed

text \<open>
  C3. \<open>main\<close> answers every input. It answers \<open>continue\<close> false only when the input
  decodes and parses to an object whose prompt is a non-empty string on which a
  detector of the battery fires, and the message is then the warning of
  \<open>check_sensitive_info\<close>. An exception that leaves the body of the \<open>try\<close>, the
  \<open>TypeError\<close> of a detector given a prompt that is no string among them, becomes
  \<open>continue\<close> true with a message that describes it.
\<close>

theorem only_detection_blocks:
  "(\<not> continue (main e stdin) \<longrightarrow>
      (\<exists>input_data d s. decode e stdin = Inr input_data
         \<and> loads e input_data = Inr (PDict d)
         \<and> map_of d (ustr ''prompt'') = Some (PStr s) \<and> s \<noteq> []
         \<and> list_ex (\<lambda>c. fst c s) checks
         \<and> main e stdin
            = \<lparr>continue = False, user_message = Some (snd (check_sensitive_info s))\<rparr>))
   \<and> (\<forall>err. try_block check_prompt e stdin = Inl err \<longrightarrow>
         main e stdin
           = \<lparr>continue = True, user_message = Some (error_prefix @ exn_str e err)\<rparr>)
   \<and> (\<forall>input_data d v. decode e stdin = Inr input_data
         \<and> loads e input_data = Inr (PDict d)
         \<and> map_of d (ustr ''prompt'') = Some v \<and> truthy v \<and> (\<forall>s. v \<noteq> PStr s) \<longrightarrow>
         try_block check_prompt e stdin = Inl (TypeError v))"
proof (intro conjI impI allI)
  assume blocked: "\<not> continue (main e stdin)"
  then obtain r where r: "try_block check_prompt e stdin = Inr r" "main e stdin = r"
    by (auto simp: main_def main_with_def split: sum.splits)
  with blocked have "\<not> continue r" by simp
  from try_block_blocks [OF r(1) this] r(2) check_sensitive_info_fires
  show "\<exists>input_data d s. decode e stdin = Inr input_data
         \<and> loads e input_data = Inr (PDict d)
         \<and> map_of d (ustr ''prompt'') = Some (PStr s) \<and> s \<noteq> []
         \<and> list_ex (\<lambda>c. fst c s) checks
         \<and> main e stdin
            = \<lparr>continue = False, user_message = Some (snd (check_sensitive_info s))\<rparr>"
    by metis
next
  fix err
  assume "try_block check_prompt e stdin = Inl err"
  then show "main e stdin
      = \<lparr>continue = True, user_message = Some (error_prefix @ exn_str e err)\<rparr>"
    by (simp add: main_def main_with_def)
next
  fix input_data d v
  assume "decode e stdin = Inr input_data \<and> loads e input_data = Inr (PDict d)
      \<and> map_of d (ustr ''prompt'') = Some v \<and> truthy v \<and> (\<forall>s. v \<noteq> PStr s)"
  then show "try_block check_prompt e stdin = Inl (TypeError v)"
    by (cases v) (simp_all add: try_block_def check_prompt_def)
qed

theorem only_detection_blocks_witness:
  "\<not> continue (main
        (run_env (Inr (ustr ''{'' @ quoted (ustr ''prompt'') @ ustr '': ''
             @ quoted (ustr ''password: hunter22'') @ ustr ''}''))
           (Inr (PDict [(ustr ''prompt'', PStr (ustr ''password: hunter22''))])))
        (ustr ''{'' @ quoted (ustr ''prompt'') @ ustr '': ''
           @ quoted (ustr ''password: hunter22'') @ ustr ''}''))
   \<and> main
        (run_env (Inr (ustr ''{'' @ quoted (ustr ''prompt'') @ ustr '': ''
             @ quoted (ustr ''password: hunter22'') @ ustr ''}''))
           (Inr (PDict [(ustr ''prompt'', PStr (ustr ''password: hunter22''))])))
        (ustr ''{'' @ quoted (ustr ''prompt'') @ ustr '': ''
           @ quoted (ustr ''password: hunter22'') @ ustr ''}'')
       = \<lparr>continue = False, user_message = Some warning_password\<rparr>
   \<and> try_block check_prompt
        (run_env (Inr (ustr ''{'' @ quoted (ustr ''prompt'') @ ustr '': 5}''))
           (Inr (PDict [(ustr ''prompt'', PInt 5)])))
        (ustr ''{'' @ quoted (ustr ''prompt'') @ ustr '': 5}'')
       = Inl (TypeError (PInt 5))
   \<and> main
        (run_env (Inr (ustr ''{'' @ quoted (ustr ''prompt'') @ ustr '': 5}''))
           (Inr (PDict [(ustr ''prompt'', PInt 5)])))
        (ustr ''{'' @ quoted (ustr ''prompt'') @ ustr '': 5}'')
       = \<lparr>continue = True,
          user_message = Some (error_prefix
            @ ustr ''expected string or bytes-like object, got '' @ [39] @ ustr ''int''
            @ [39])\<rparr>"
proof -
  define t where "t = ustr ''password: hunter22''"
  define in1 where
    "in1 = ustr ''{'' @ quoted (ustr ''prompt'') @ ustr '': '' @ quoted t @ ustr ''}''"
  define in2 where "in2 = ustr ''{'' @ quoted (ustr ''prompt'') @ ustr '': 5}''"
  define e1 where "e1 = run_env (Inr in1) (Inr (PDict [(ustr ''prompt'', PStr t)]))"
  define e2 where "e2 = run_env (Inr in2) (Inr (PDict [(ustr ''prompt'', PInt 5)]))"
  have "\<not> detect_api_key t" "detect_password t"
    unfolding t_def by (simp_all add: detector_defs)
  then have res: "check_sensitive_info t = (True, warning_password)"
    by (simp add: first_match_dispatch)
  have ne: "t \<noteq> []"
    by (simp add: t_def ustr_def)
  have blocked: "\<not> continue (main e1 in1)"
    by (simp add: main_def main_with_def try_block_def e1_def run_env_def ne
        check_prompt_def res decision_def)
  from only_detection_blocks [of e1 in1] blocked
  obtain input_data d s where o: "loads e1 input_data = Inr (PDict d)"
      "map_of d (ustr ''prompt'') = Some (PStr s)"
      "main e1 in1 = \<lparr>continue = False, user_message = Some (snd (check_sensitive_info s))\<rparr>"
    by blast
  from o(1) have "d = [(ustr ''prompt'', PStr t)]"
    by (simp add: e1_def run_env_def)
  with o(2) have "s = t" by simp
  with o(3) res have m1: "main e1 in1 = \<lparr>continue = False, user_message = Some warning_password\<rparr>"
    by simp
  have "decode e2 in2 = Inr in2 \<and> loads e2 in2 = Inr (PDict [(ustr ''prompt'', PInt 5)])
      \<and> map_of [(ustr ''prompt'', PInt 5)] (ustr ''prompt'') = Some (PInt 5)
      \<and> truthy (PInt 5) \<and> (\<forall>s. PInt 5 \<noteq> PStr s)"
    by (simp add: e2_def run_env_def)
  with only_detection_blocks [of e2 in2]
  have raised: "try_block check_prompt e2 in2 = Inl (TypeError (PInt 5))"
    by blast
  with only_detection_blocks [of e2 in2]
  have "main e2 in2
      = \<lparr>continue = True, user_message = Some (error_prefix @ exn_str e2 (TypeError (PInt 5)))\<rparr>"
    by blast
  then have m2: "main e2 in2 = \<lparr>continue = True,
      user_message = Some (error_prefix
        @ ustr ''expected string or bytes-like object, got '' @ [39] @ ustr ''int'' @ [39])\<rparr>"
    by (simp add: e2_def run_env_def message_of_def)
  from blocked m1 raised m2 show ?thesis
    by (simp add: e1_def e2_def in1_def in2_def t_def)
qed

text \<open>
  C4, as the claim states it, fails: \<open>json.loads\<close>, called as it is, accepts \<open>NaN\<close>, which
  JSON does not have. The input \<open>{"prompt": "password: hunter22", "x": NaN}\<close> cannot
  be parsed as JSON, \<open>json.loads\<close> returns a dict for it, and the answer is \<open>continue\<close>
  false.
\<close>

theorem nan_input_blocked:
  "main
     (run_env (Inr (ustr ''{'' @ quoted (ustr ''prompt'') @ ustr '': ''
          @ quoted (ustr ''password: hunter22'') @ ustr '', '' @ quoted (ustr ''x'')
          @ ustr '': NaN}''))
        (Inr (PDict [(ustr ''prompt'', PStr (ustr ''password: hunter22'')),
                     (ustr ''x'', PFloat NaN)])))
     (ustr ''{'' @ quoted (ustr ''prompt'') @ ustr '': ''
        @ quoted (ustr ''password: hunter22'') @ ustr '', '' @ quoted (ustr ''x'')
        @ ustr '': NaN}'')
   = \<lparr>continue = False, user_message = Some warning_password\<rparr>"
proof -
  have "\<not> detect_api_key (ustr ''password: hunter22'')"
    "detect_password (ustr ''password: hunter22'')"
    by (simp_all add: detector_defs)
  then have "check_sensitive_info (ustr ''password: hunter22'') = (True, warning_password)"
    by (simp add: first_match_dispatch)
  moreover have "ustr ''password: hunter22'' \<noteq> []"
    by (simp add: ustr_def)
  ultimately show ?thesis
    by (simp add: main_def main_with_def try_block_def run_env_def check_prompt_def
        decision_def)
qed

text \<open>
  C4, amended. When the bytes of the input do not decode or \<open>json.loads\<close> raises on
  the decoded text, \<open>main\<close> answers \<open>continue\<close> true with a
  message that is not empty: a fixed prefix followed by the text of the error. The
  prefix is the one of the JSON handler when \<open>json.loads\<close> raises \<open>JSONDecodeError\<close>, the
  one of the outer handler otherwise.
\<close>

theorem malformed_input_allows:
  assumes "decode e stdin = Inl err
      \<or> (\<exists>input_data. decode e stdin = Inr input_data \<and> loads e input_data = Inl err)"
  shows "continue (main e stdin)
      \<and> user_message (main e stdin)
          = Some ((case (decode e stdin, err) of
                     (Inr input_data, JSONDecodeError m) \<Rightarrow> json_error_prefix
                   | _ \<Rightarrow> error_prefix) @ exn_str e err)
      \<and> user_message (main e stdin) \<noteq> Some []"
  using assms prefixes_not_empty
  by (auto simp: main_def main_with_def try_block_def split: sum.splits exn.splits)

theorem malformed_input_allows_witness:
  "loads (run_env (Inr (ustr ''{''))
       (Inl (JSONDecodeError (ustr ''Expecting property name enclosed in double quotes: line 1 column 2 (char 1)''))))
     (ustr ''{'')
     = Inl (JSONDecodeError (ustr ''Expecting property name enclosed in double quotes: line 1 column 2 (char 1)''))
   \<and> main (run_env (Inr (ustr ''{''))
       (Inl (JSONDecodeError (ustr ''Expecting property name enclosed in double quotes: line 1 column 2 (char 1)''))))
     (ustr ''{'')
       = \<lparr>continue = True,
          user_message = Some (json_error_prefix
            @ ustr ''Expecting property name enclosed in double quotes: line 1 column 2 (char 1)'')\<rparr>
   \<and> decode (run_env (Inl (UnicodeDecodeError ([39] @ ustr ''utf-8'' @ [39] @ ustr '' codec can''
         @ [39] @ ustr ''t decode byte 0xff in position 0: invalid start byte''))) (Inr PNone))
       [255]
       = Inl (UnicodeDecodeError ([39] @ ustr ''utf-8'' @ [39] @ ustr '' codec can''
         @ [39] @ ustr ''t decode byte 0xff in position 0: invalid start byte''))
   \<and> main (run_env (Inl (UnicodeDecodeError ([39] @ ustr ''utf-8'' @ [39] @ ustr '' codec can''
         @ [39] @ ustr ''t decode byte 0xff in position 0: invalid start byte''))) (Inr PNone))
       [255]
       = \<lparr>continue = True,
          user_message = Some (error_prefix @ [39] @ ustr ''utf-8'' @ [39] @ ustr '' codec can''
            @ [39] @ ustr ''t decode byte 0xff in position 0: invalid start byte'')\<rparr>"
proof -
  define m1 where
    "m1 = ustr ''Expecting property name enclosed in double quotes: line 1 column 2 (char 1)''"
  define m2 where "m2 = [39] @ ustr ''utf-8'' @ [39] @ ustr '' codec can''
         @ [39] @ ustr ''t decode byte 0xff in position 0: invalid start byte''"
  define e1 where "e1 = run_env (Inr (ustr ''{'')) (Inl (JSONDecodeError m1))"
  define e2 where "e2 = run_env (Inl (UnicodeDecodeError m2)) (Inr PNone)"
  define stdin where "stdin = ustr ''{''"
  have h1: "decode e1 stdin = Inr stdin" "loads e1 stdin = Inl (JSONDecodeError m1)"
    by (simp_all add: e1_def run_env_def stdin_def)
  then have "decode e1 stdin = Inl (JSONDecodeError m1)
      \<or> (\<exists>input_data. decode e1 stdin = Inr input_data
           \<and> loads e1 input_data = Inl (JSONDecodeError m1))"
    by blast
  from malformed_input_allows [OF this] h1(1)
  have "continue (main e1 stdin)"
    "user_message (main e1 stdin) = Some (json_error_prefix @ exn_str e1 (JSONDecodeError m1))"
    by simp_all
  then have r1: "main e1 stdin
      = \<lparr>continue = True, user_message = Some (json_error_prefix @ m1)\<rparr>"
    by (cases "main e1 stdin") (simp add: e1_def run_env_def message_of_def)
  have h2: "decode e2 [255] = Inl (UnicodeDecodeError m2)"
    by (simp add: e2_def run_env_def)
  then have "decode e2 [255] = Inl (UnicodeDecodeError m2)
      \<or> (\<exists>input_data. decode e2 [255] = Inr input_data
           \<and> loads e2 input_data = Inl (UnicodeDecodeError m2))"
    by blast
  from malformed_input_allows [OF this] h2
  have "continue (main e2 [255])"
    "user_message (main e2 [255]) = Some (error_prefix @ exn_str e2 (UnicodeDecodeError m2))"
    by simp_all
  then have r2: "main e2 [255] = \<lparr>continue = True, user_message = Some (error_prefix @ m2)\<rparr>"
    by (cases "main e2 [255]") (simp add: e2_def run_env_def message_of_def)
  from h1(2) r1 h2 r2 show ?thesis
    by (simp add: e1_def e2_def stdin_def m1_def m2_def)
qed

text \<open>
  C5, as the claim states it, fails: \<open>[]\<close> is well-formed JSON with no \<open>prompt\<close> field,
  \<open>json.loads\<close> returns the empty list, which has no \<open>get\<close>, and the outer handler
  answers with a message.
\<close>

theorem json_array_gets_message:
  "main (run_env (Inr (ustr ''[]'')) (Inr (PList []))) (ustr ''[]'')
     = \<lparr>continue = True,
        user_message = Some (error_prefix @ [39] @ ustr ''list'' @ [39]
          @ ustr '' object has no attribute '' @ [39] @ ustr ''get'' @ [39])\<rparr>
   \<and> user_message (main (run_env (Inr (ustr ''[]'')) (Inr (PList []))) (ustr ''[]'')) \<noteq> None"
  by (simp add: main_def main_with_def try_block_def run_env_def message_of_def)

text \<open>
  C5, amended. When the input parses to a JSON object that has no \<open>prompt\<close> field, or
  whose \<open>prompt\<close> is the empty string, \<open>main\<close> answers \<open>continue\<close> true and no message. The
  answer is the same whatever function stands in for \<open>check_sensitive_info\<close>: the
  battery is not run.
\<close>

theorem no_prompt_allows:
  assumes "decode e stdin = Inr input_data"
    and "loads e input_data = Inr (PDict d)"
    and "map_of d (ustr ''prompt'') = None \<or> map_of d (ustr ''prompt'') = Some (PStr [])"
  shows "main e stdin = \<lparr>continue = True, user_message = None\<rparr>
      \<and> (\<forall>chk. main_with chk e stdin = \<lparr>continue = True, user_message = None\<rparr>)"
  using assms by (auto simp: main_def main_with_def try_block_def)

theorem no_prompt_allows_witness:
  "decode (run_env (Inr (ustr ''{}'')) (Inr (PDict []))) (ustr ''{}'') = Inr (ustr ''{}'')
   \<and> loads (run_env (Inr (ustr ''{}'')) (Inr (PDict []))) (ustr ''{}'') = Inr (PDict [])
   \<and> map_of ([] :: (str \<times> pyval) list) (ustr ''prompt'') = None
   \<and> main (run_env (Inr (ustr ''{}'')) (Inr (PDict []))) (ustr ''{}'')
       = \<lparr>continue = True, user_message = None\<rparr>
   \<and> main_with (\<lambda>v. Inr (True, ustr ''blocked''))
        (run_env (Inr (ustr ''{}'')) (Inr (PDict []))) (ustr ''{}'')
       = \<lparr>continue = True, user_message = None\<rparr>"
proof -
  have h: "decode (run_env (Inr (ustr ''{}'')) (Inr (PDict []))) (ustr ''{}'')
      = Inr (ustr ''{}'')"
    "loads (run_env (Inr (ustr ''{}'')) (Inr (PDict []))) (ustr ''{}'') = Inr (PDict [])"
    "map_of ([] :: (str \<times> pyval) list) (ustr ''prompt'') = None
      \<or> map_of ([] :: (str \<times> pyval) list) (ustr ''prompt'') = Some (PStr [])"
    by (simp_all add: run_env_def)
  from no_prompt_allows [OF h] h show ?thesis
    by simp
qed

end
